theory Spec2Isabelle
  imports Complex_Main
begin

section \<open>The logistic map noise generator (logisticmap.cpp)\<close>

text \<open>
  A shallow embedding of the LADSPA plugin in \<^verbatim>\<open>logisticmap.cpp\<close>.

  \<^item> \<^verbatim>\<open>LADSPA_Data\<close> is the C type \<^verbatim>\<open>float\<close>: an IEEE 754 binary32 number, an
    infinity or a NaN. Every arithmetic operation rounds its exact result to the nearest
    binary32 number, ties to even, as the build for x86-64 does. The two zeros compare
    equal and the code never divides, so they are one value here; so are all NaNs.
  \<^item> Host memory is a store from cell addresses to values, one cell per
    \<^verbatim>\<open>LADSPA_Data\<close>, so \<^verbatim>\<open>p[i]\<close> is the cell \<open>p + i\<close>. A pointer is an optional
    address, \<open>None\<close> being the null pointer. Port locations may alias.
  \<^item> \<^verbatim>\<open>unsigned long\<close> values (the sample count, the port index, the plugin index)
    are natural numbers: the code only compares them.
  \<^item> The loop counter of \<^verbatim>\<open>lmng_run\<close> is an \<^verbatim>\<open>int\<close>; incrementing it beyond
    \<^verbatim>\<open>INT_MAX\<close> and reading through a null pointer have no defined behaviour in
    C++, and are results of their own in the model.
  \<^item> An instance is passed by value and returned updated; \<^verbatim>\<open>lmng_new\<close> returns the
    new instance, or \<open>None\<close> for the null handle. \<^verbatim>\<open>lmng_delete\<close> only frees the
    object and has no counterpart here.
\<close>

subsection \<open>The arithmetic of \<^verbatim>\<open>float\<close>\<close>

text \<open>
  A finite value carries its real number; the values a cell of type \<^verbatim>\<open>float\<close> can hold
  are those that rounding leaves unchanged (\<open>is_binary32\<close> below).
\<close>

datatype LADSPA_Data = Finite real | PInf | MInf | NaN

text \<open>Rounding a real to the nearest integer, a tie to the even one.\<close>

definition rne :: "real \<Rightarrow> int" where
  "rne y =
     (let f = \<lfloor>y\<rfloor>; d = y - of_int f
      in if d < 1 / 2 then f else if 1 / 2 < d then f + 1 else if even f then f else f + 1)"

text \<open>
  The binary exponent of a magnitude \<open>a\<close>, kept within the exponent range \<open>-126 .. 127\<close>
  of binary32: the least \<open>e\<close> from \<open>-126\<close> on with \<open>a < 2 ^ (e + 1)\<close>, and 127 if there is
  none. The spacing of the binary32 numbers around \<open>a\<close> is \<open>2 ^ quantum a\<close>, 23 binary
  places below (subnormal numbers share the spacing \<open>2 ^ - 149\<close>).
\<close>

fun exp_search :: "nat \<Rightarrow> real \<Rightarrow> int \<Rightarrow> int" where
  "exp_search 0 a e = e"
| "exp_search (Suc k) a e = (if a < 2 powi (e + 1) then e else exp_search k a (e + 1))"

definition quantum :: "real \<Rightarrow> int" where
  "quantum a = exp_search 253 a (- 126) - 23"

text \<open>
  Rounding to binary32: the nearest multiple of the spacing, and an infinity when that is
  \<open>2 ^ 128\<close> or beyond.
\<close>

definition round32 :: "real \<Rightarrow> LADSPA_Data" where
  "round32 x =
     (let E = quantum \<bar>x\<bar>;
          y = of_int (rne (x / 2 powi E)) * 2 powi E
      in if 2 ^ 128 \<le> y then PInf else if y \<le> - (2 ^ 128) then MInf else Finite y)"

text \<open>Multiplication, subtraction and the comparison \<open><\<close> of \<^verbatim>\<open>float\<close>.\<close>

fun fmul :: "LADSPA_Data \<Rightarrow> LADSPA_Data \<Rightarrow> LADSPA_Data" where
  "fmul NaN b = NaN"
| "fmul a NaN = NaN"
| "fmul (Finite x) (Finite y) = round32 (x * y)"
| "fmul (Finite x) PInf = (if x = 0 then NaN else if 0 < x then PInf else MInf)"
| "fmul (Finite x) MInf = (if x = 0 then NaN else if 0 < x then MInf else PInf)"
| "fmul PInf (Finite y) = (if y = 0 then NaN else if 0 < y then PInf else MInf)"
| "fmul MInf (Finite y) = (if y = 0 then NaN else if 0 < y then MInf else PInf)"
| "fmul PInf PInf = PInf"
| "fmul PInf MInf = MInf"
| "fmul MInf PInf = MInf"
| "fmul MInf MInf = PInf"

fun fsub :: "LADSPA_Data \<Rightarrow> LADSPA_Data \<Rightarrow> LADSPA_Data" where
  "fsub NaN b = NaN"
| "fsub a NaN = NaN"
| "fsub (Finite x) (Finite y) = round32 (x - y)"
| "fsub (Finite x) PInf = MInf"
| "fsub (Finite x) MInf = PInf"
| "fsub PInf PInf = NaN"
| "fsub MInf MInf = NaN"
| "fsub PInf b = PInf"
| "fsub MInf b = MInf"

fun fless :: "LADSPA_Data \<Rightarrow> LADSPA_Data \<Rightarrow> bool" where
  "fless NaN b = False"
| "fless a NaN = False"
| "fless (Finite x) (Finite y) = (x < y)"
| "fless PInf b = False"
| "fless a MInf = False"
| "fless a PInf = True"
| "fless MInf b = True"

subsection \<open>Data\<close>

type_synonym addr = nat
type_synonym ptr = "addr option"
type_synonym store = "addr \<Rightarrow> LADSPA_Data"

text \<open>\<^verbatim>\<open>class lmng_state\<close>: three port pointers and the recurrence state.\<close>

record lmng_state =
  r :: ptr
  seed :: ptr
  outbuf :: ptr
  current :: LADSPA_Data

text \<open>What the C++ leaves undefined, as values.\<close>

datatype fault = NullDereference | SignedOverflow

definition INT_MAX :: int where
  "INT_MAX = 2147483647"

definition PORT_R :: nat where "PORT_R = 0"
definition PORT_SEED :: nat where "PORT_SEED = 1"
definition PORT_OUT :: nat where "PORT_OUT = 2"
definition PORT_COUNT :: nat where "PORT_COUNT = 3"

text \<open>
  The static descriptor \<^verbatim>\<open>plugin\<close>. The code compares descriptors by address only, so a
  descriptor pointer is null, the address of \<^verbatim>\<open>plugin\<close>, or the address of some other
  descriptor object.
\<close>

datatype descriptor_ref = Plugin_ref | Foreign_ref nat

type_synonym descriptor_ptr = "descriptor_ref option"

text \<open>
  The flag words of the tables are bitwise ors of macros of \<^verbatim>\<open>ladspa.h\<close>, kept here as
  the lists of the macros' names. The function pointers of the descriptor are the five
  operations below.
\<close>

datatype port_flag =
  LADSPA_PORT_INPUT | LADSPA_PORT_OUTPUT | LADSPA_PORT_CONTROL | LADSPA_PORT_AUDIO

datatype hint_flag =
  LADSPA_HINT_BOUNDED_BELOW | LADSPA_HINT_BOUNDED_ABOVE
| LADSPA_HINT_DEFAULT_HIGH | LADSPA_HINT_DEFAULT_0

record LADSPA_PortRangeHint =
  HintDescriptor :: "hint_flag list"
  LowerBound :: LADSPA_Data
  UpperBound :: LADSPA_Data

record LADSPA_Descriptor =
  UniqueID :: nat
  Label :: string
  Properties :: nat
  Name :: string
  Maker :: string
  Copyright :: string
  PortCount :: nat
  PortDescriptors :: "port_flag list list"
  PortNames :: "string list"
  PortRangeHints :: "LADSPA_PortRangeHint list"

definition PLUGIN_BASE :: nat where "PLUGIN_BASE = 1"

definition PLUGIN_ID :: "nat \<Rightarrow> nat" where
  "PLUGIN_ID x = PLUGIN_BASE + x"

definition plugin_ports :: "port_flag list list" where
  "plugin_ports =
     [[LADSPA_PORT_INPUT, LADSPA_PORT_CONTROL],
      [LADSPA_PORT_INPUT, LADSPA_PORT_CONTROL],
      [LADSPA_PORT_OUTPUT, LADSPA_PORT_AUDIO]]"

definition plugin_portnames :: "string list" where
  "plugin_portnames = [''R (float 0-4)'', ''Seed value (float)'', ''Noise'']"

definition plugin_hints :: "LADSPA_PortRangeHint list" where
  "plugin_hints =
     [\<lparr> HintDescriptor =
          [LADSPA_HINT_BOUNDED_BELOW, LADSPA_HINT_BOUNDED_ABOVE, LADSPA_HINT_DEFAULT_HIGH],
        LowerBound = Finite 0, UpperBound = Finite 4 \<rparr>,
      \<lparr> HintDescriptor =
          [LADSPA_HINT_BOUNDED_BELOW, LADSPA_HINT_BOUNDED_ABOVE, LADSPA_HINT_DEFAULT_0],
        LowerBound = Finite 0, UpperBound = Finite 1 \<rparr>,
      \<lparr> HintDescriptor = [LADSPA_HINT_BOUNDED_BELOW, LADSPA_HINT_BOUNDED_ABOVE],
        LowerBound = Finite 0, UpperBound = Finite 1 \<rparr>]"

definition plugin :: LADSPA_Descriptor where
  "plugin = \<lparr> UniqueID = PLUGIN_ID 0,
      Label = ''LogisticMapGenerator'',
      Properties = 0,
      Name = ''Logistic Map noise generator'',
      Maker = ''Kythyria Tieran'',
      Copyright = ''None'',
      PortCount = PORT_COUNT,
      PortDescriptors = plugin_ports,
      PortNames = plugin_portnames,
      PortRangeHints = plugin_hints \<rparr>"

subsection \<open>Operations\<close>

text \<open>\<^verbatim>\<open>ladspa_descriptor\<close>: null for every index above 0, else the address of \<^verbatim>\<open>plugin\<close>.\<close>

definition ladspa_descriptor :: "nat \<Rightarrow> descriptor_ptr" where
  "ladspa_descriptor Index = (if Index > 0 then None else Some Plugin_ref)"

text \<open>
  \<^verbatim>\<open>lmng_new\<close>: null unless \<open>desc\<close> is the address of \<^verbatim>\<open>plugin\<close>; otherwise
  \<^verbatim>\<open>new lmng_state()\<close>, which value-initialises the object: null pointers and
  \<open>current = 0\<close>. The sample rate is not used.
\<close>

definition lmng_new :: "descriptor_ptr \<Rightarrow> nat \<Rightarrow> lmng_state option" where
  "lmng_new desc samplerate =
     (if desc \<noteq> Some Plugin_ref then None
      else Some \<lparr> r = None, seed = None, outbuf = None, current = Finite 0 \<rparr>)"

text \<open>\<^verbatim>\<open>lmng_connect\<close>: a \<^verbatim>\<open>switch\<close> with three cases and no default.\<close>

definition lmng_connect :: "lmng_state \<Rightarrow> nat \<Rightarrow> ptr \<Rightarrow> lmng_state" where
  "lmng_connect inst port location =
     (if port = PORT_R then inst\<lparr> r := location \<rparr>
      else if port = PORT_SEED then inst\<lparr> seed := location \<rparr>
      else if port = PORT_OUT then inst\<lparr> outbuf := location \<rparr>
      else inst)"

text \<open>\<^verbatim>\<open>lmng_activate\<close>: \<^verbatim>\<open>inst->current = *(inst->seed)\<close>.\<close>

definition lmng_activate :: "lmng_state \<Rightarrow> store \<Rightarrow> fault + lmng_state" where
  "lmng_activate inst st =
     (case seed inst of
        None \<Rightarrow> Inl NullDereference
      | Some sa \<Rightarrow> Inr (inst\<lparr> current := st sa \<rparr>))"

text \<open>
  The \<^verbatim>\<open>for\<close> loop of \<^verbatim>\<open>lmng_run\<close>, entered at the test \<^verbatim>\<open>i < sampleCount\<close>. The
  counter \<open>i\<close> is never negative, so its conversion to \<^verbatim>\<open>unsigned long\<close> for the test
  keeps its value. The body writes \<^verbatim>\<open>outbuf[i]\<close>, advances \<open>current\<close>, and \<^verbatim>\<open>++i\<close>
  overflows when \<open>i\<close> is \<^verbatim>\<open>INT_MAX\<close>.
\<close>

function run_loop ::
  "LADSPA_Data \<Rightarrow> nat \<Rightarrow> int \<Rightarrow> lmng_state \<times> store \<Rightarrow> fault + lmng_state \<times> store"
where
  "run_loop rv sampleCount i (inst, st) =
     (if i < int sampleCount then
        (case outbuf inst of
           None \<Rightarrow> Inl NullDereference
         | Some b \<Rightarrow>
             (let st' = st(b + nat i := current inst);
                  inst' = inst\<lparr> current :=
                    fmul (fmul rv (current inst)) (fsub (Finite 1) (current inst)) \<rparr>
              in if i = INT_MAX then Inl SignedOverflow
                 else run_loop rv sampleCount (i + 1) (inst', st')))
      else Inr (inst, st))"
  by pat_completeness auto
termination
  by (relation "measure (\<lambda>(rv, sampleCount, i, p). nat (int sampleCount - i))") auto

declare run_loop.simps [simp del]

text \<open>
  \<^verbatim>\<open>lmng_run\<close>: read \<open>*r\<close> once, apply the two tests \<^verbatim>\<open>r > 4.0f\<close> and \<^verbatim>\<open>r < 0.0f\<close> of
  the source, loop. Both tests are false of a NaN.
\<close>

definition lmng_run :: "lmng_state \<Rightarrow> nat \<Rightarrow> store \<Rightarrow> fault + lmng_state \<times> store" where
  "lmng_run inst sampleCount st =
     (case r inst of
        None \<Rightarrow> Inl NullDereference
      | Some ra \<Rightarrow>
          (let r0 = st ra;
               r1 = (if fless (Finite 4) r0 then Finite 4 else r0);
               r2 = (if fless r1 (Finite 0) then Finite 0 else r1)
           in run_loop r2 sampleCount 0 (inst, st)))"

subsection \<open>Notions used to state the properties\<close>

text \<open>
  The recurrence sequence: \<open>logistic_orbit rv x k\<close> is the state after \<open>k\<close> applications
  of the map, as the loop computes it, to \<open>x\<close>.
\<close>

fun logistic_orbit :: "LADSPA_Data \<Rightarrow> LADSPA_Data \<Rightarrow> nat \<Rightarrow> LADSPA_Data" where
  "logistic_orbit rv x 0 = x"
| "logistic_orbit rv x (Suc k) =
     logistic_orbit rv (fmul (fmul rv x) (fsub (Finite 1) x)) k"

text \<open>The growth rate after the two clamping tests.\<close>

definition clamped_rate :: "LADSPA_Data \<Rightarrow> LADSPA_Data" where
  "clamped_rate r0 =
     (if fless (Finite 4) r0 then Finite 4 else if fless r0 (Finite 0) then Finite 0 else r0)"

text \<open>A number of the interval \<open>[0, 1]\<close>.\<close>

definition in_unit :: "LADSPA_Data \<Rightarrow> bool" where
  "in_unit v = (case v of Finite y \<Rightarrow> 0 \<le> y \<and> y \<le> 1 | _ \<Rightarrow> False)"

text \<open>A value that a cell of type \<^verbatim>\<open>float\<close> can hold.\<close>

definition is_binary32 :: "LADSPA_Data \<Rightarrow> bool" where
  "is_binary32 v = (case v of Finite y \<Rightarrow> round32 y = Finite y | _ \<Rightarrow> True)"

text \<open>The first \<open>n\<close> cells of the output buffer at \<open>b\<close>.\<close>

definition out_samples :: "addr \<Rightarrow> nat \<Rightarrow> store \<Rightarrow> LADSPA_Data list" where
  "out_samples b n st = map (\<lambda>k. st (b + k)) [0..<n]"

text \<open>The store after \<open>n\<close> samples of the orbit of \<open>x\<close> were written from cell \<open>b\<close> on.\<close>

definition write_orbit :: "LADSPA_Data \<Rightarrow> LADSPA_Data \<Rightarrow> addr \<Rightarrow> nat \<Rightarrow> store \<Rightarrow> store" where
  "write_orbit rv x b n st =
     (\<lambda>a. if b \<le> a \<and> a < b + n then logistic_orbit rv x (a - b) else st a)"

text \<open>The host's call sequence \<^verbatim>\<open>activate\<close>, then \<^verbatim>\<open>run\<close>, on one store.\<close>

definition activate_run :: "lmng_state \<Rightarrow> nat \<Rightarrow> store \<Rightarrow> fault + lmng_state \<times> store" where
  "activate_run inst n st =
     (case lmng_activate inst st of
        Inl e \<Rightarrow> Inl e
      | Inr inst' \<Rightarrow> lmng_run inst' n st)"

text \<open>What a host sees of a run of \<open>n\<close> samples into the buffer at \<open>b\<close>.\<close>

definition run_observed ::
  "addr \<Rightarrow> nat \<Rightarrow> fault + lmng_state \<times> store \<Rightarrow> fault + lmng_state \<times> LADSPA_Data list"
where
  "run_observed b n res =
     (case res of
        Inl e \<Rightarrow> Inl e
      | Inr (inst', st') \<Rightarrow> Inr (inst', out_samples b n st'))"

text \<open>A sequence of \<^verbatim>\<open>connect\<close> calls.\<close>

definition connect_all :: "(nat \<times> ptr) list \<Rightarrow> lmng_state \<Rightarrow> lmng_state" where
  "connect_all binds inst = fold (\<lambda>(port, location) i. lmng_connect i port location) binds inst"

text \<open>
  A concrete host: the growth rate in cell 0, the seed in cell 1, the output buffer from
  cell 2 on; every other cell holds 9 before a run.
\<close>

definition host_inst :: lmng_state where
  "host_inst = \<lparr> r = Some 0, seed = Some 1, outbuf = Some 2, current = Finite 0 \<rparr>"

definition host_store :: "LADSPA_Data \<Rightarrow> LADSPA_Data \<Rightarrow> store" where
  "host_store rate sd = (\<lambda>a. Finite 9)(0 := rate, 1 := sd)"

section \<open>Properties\<close>

subsection \<open>Rounding\<close>

text \<open>Rounding to an integer is monotone, exact on integers and off by at most a half.\<close>

lemma rne_cases: "rne y = \<lfloor>y\<rfloor> \<or> rne y = \<lfloor>y\<rfloor> + 1"
  by (simp add: rne_def Let_def)

lemma rne_of_int [simp]: "rne (of_int n) = n"
  by (simp add: rne_def)

lemma rne_mono: "x \<le> y \<Longrightarrow> rne x \<le> rne y"
proof -
  assume xy: "x \<le> y"
  then have fl: "\<lfloor>x\<rfloor> \<le> \<lfloor>y\<rfloor>" by (rule floor_mono)
  show ?thesis
  proof (cases "\<lfloor>x\<rfloor> = \<lfloor>y\<rfloor>")
    case True
    with xy show ?thesis
      by (auto simp: rne_def Let_def)
  next
    case False
    with fl have "\<lfloor>x\<rfloor> + 1 \<le> \<lfloor>y\<rfloor>" by simp
    with rne_cases [of x] rne_cases [of y] show ?thesis by auto
  qed
qed

lemma rne_error: "\<bar>of_int (rne x) - x\<bar> \<le> 1 / 2"
proof -
  define f where "f = \<lfloor>x\<rfloor>"
  have lo: "of_int f \<le> x" and hi: "x < of_int f + 1"
    unfolding f_def by linarith+
  have "rne x = f \<and> x - of_int f \<le> 1 / 2 \<or> rne x = f + 1 \<and> 1 / 2 \<le> x - of_int f"
    unfolding rne_def Let_def f_def [symmetric] by auto
  then show ?thesis
  proof
    assume "rne x = f \<and> x - of_int f \<le> 1 / 2"
    with lo show ?thesis by (simp add: abs_if)
  next
    assume "rne x = f + 1 \<and> 1 / 2 \<le> x - of_int f"
    with hi show ?thesis by (simp add: abs_if)
  qed
qed

lemma rne_below_half: "x < of_int n + 1 / 2 \<Longrightarrow> rne x \<le> n"
proof -
  assume a: "x < of_int n + 1 / 2"
  have fl: "\<lfloor>x\<rfloor> \<le> n"
  proof -
    have "x < of_int (n + 1)" using a by simp
    then have "\<lfloor>x\<rfloor> < n + 1" by (simp only: floor_less_iff)
    then show ?thesis by simp
  qed
  show ?thesis
  proof (cases "\<lfloor>x\<rfloor> = n")
    case True
    with a show ?thesis by (simp add: rne_def Let_def)
  next
    case False
    with fl have "\<lfloor>x\<rfloor> + 1 \<le> n" by simp
    with rne_cases [of x] show ?thesis by auto
  qed
qed

lemma rne_nonneg: "0 \<le> x \<Longrightarrow> 0 \<le> rne x"
  using rne_mono [of 0 x] rne_of_int [of 0] by simp

text \<open>The spacing exponent: its range, and the binade it stands for.\<close>

lemma exp_search_bounds: "e \<le> exp_search k a e \<and> exp_search k a e \<le> e + int k"
proof (induction k arbitrary: e)
  case 0
  show ?case by simp
next
  case (Suc k)
  from Suc [of "e + 1"] show ?case by auto
qed

lemma exp_search_upper:
  "exp_search k a e < e + int k \<Longrightarrow> a < 2 powi (exp_search k a e + 1)"
proof (induction k arbitrary: e)
  case 0
  then show ?case by simp
next
  case (Suc k)
  show ?case
  proof (cases "a < 2 powi (e + 1)")
    case True
    then show ?thesis by simp
  next
    case False
    with Suc.prems have "exp_search k a (e + 1) < (e + 1) + int k" by simp
    from Suc.IH [OF this] False show ?thesis by simp
  qed
qed

lemma exp_search_lower:
  "e < exp_search k a e \<Longrightarrow> 2 powi (exp_search k a e) \<le> a"
proof (induction k arbitrary: e)
  case 0
  then show ?case by simp
next
  case (Suc k)
  show ?case
  proof (cases "a < 2 powi (e + 1)")
    case True
    with Suc.prems show ?thesis by simp
  next
    case False
    show ?thesis
    proof (cases "e + 1 < exp_search k a (e + 1)")
      case True
      from Suc.IH [OF this] False show ?thesis by simp
    next
      case nl: False
      with exp_search_bounds [of "e + 1" k a] have "exp_search k a (e + 1) = e + 1" by simp
      with False show ?thesis by simp
    qed
  qed
qed

lemma quantum_range: "- 149 \<le> quantum a \<and> quantum a \<le> 104"
  using exp_search_bounds [of "- 126" 253 a] by (simp add: quantum_def)

lemma quantum_upper: "quantum a < 104 \<Longrightarrow> a < 2 powi (quantum a + 24)"
proof -
  assume "quantum a < 104"
  then have "exp_search 253 a (- 126) < - 126 + int 253" by (simp add: quantum_def)
  from exp_search_upper [OF this] show ?thesis
    by (simp add: quantum_def add.commute)
qed

lemma quantum_lower: "- 149 < quantum a \<Longrightarrow> 2 powi (quantum a + 23) \<le> a"
proof -
  assume "- 149 < quantum a"
  then have "- 126 < exp_search 253 a (- 126)" by (simp add: quantum_def)
  from exp_search_lower [OF this] show ?thesis
    by (simp add: quantum_def)
qed

lemma quantum_le: "a < 2 powi (j + 24) \<Longrightarrow> - 149 \<le> j \<Longrightarrow> quantum a \<le> j"
proof (rule ccontr)
  assume a: "a < 2 powi (j + 24)" and j: "- 149 \<le> j" and "\<not> quantum a \<le> j"
  then have gt: "j < quantum a" by simp
  with j have "2 powi (quantum a + 23) \<le> a" by (intro quantum_lower) simp
  moreover have "(2::real) powi (j + 24) \<le> 2 powi (quantum a + 23)"
    using gt by (intro power_int_increasing) simp_all
  ultimately show False using a by simp
qed

lemma quantum_ge: "2 powi (j + 23) \<le> a \<Longrightarrow> j \<le> 104 \<Longrightarrow> j \<le> quantum a"
proof (rule ccontr)
  assume a: "2 powi (j + 23) \<le> a" and j: "j \<le> 104" and "\<not> j \<le> quantum a"
  then have lt: "quantum a < j" by simp
  with j have "a < 2 powi (quantum a + 24)" by (intro quantum_upper) simp
  moreover have "(2::real) powi (quantum a + 24) \<le> 2 powi (j + 23)"
    using lt by (intro power_int_increasing) simp_all
  ultimately show False using a by simp
qed

lemma quantum_mono: "a \<le> b \<Longrightarrow> quantum a \<le> quantum b"
proof (cases "- 149 < quantum a")
  case True
  assume "a \<le> b"
  with quantum_lower [OF True] have "2 powi (quantum a + 23) \<le> b" by simp
  then show ?thesis
    using quantum_range [of a] by (intro quantum_ge) simp_all
next
  case False
  with quantum_range [of a] quantum_range [of b] show ?thesis by simp
qed

text \<open>
  Rounding to binary32: a number \<open>m * 2 ^ k\<close> with a mantissa below \<open>2 ^ 24\<close> is left
  unchanged; rounding never crosses a binary32 number; its results are binary32 numbers.
\<close>

lemma round32_FiniteD:
  assumes "round32 x = Finite v"
  shows "v = of_int (rne (x / 2 powi quantum \<bar>x\<bar>)) * 2 powi quantum \<bar>x\<bar>"
    and "v < 2 ^ 128" and "- (2 ^ 128) < v"
  using assms by (auto simp: round32_def Let_def split: if_splits)

lemma round32_FiniteI:
  assumes "v = of_int (rne (x / 2 powi quantum \<bar>x\<bar>)) * 2 powi quantum \<bar>x\<bar>"
    and "v < 2 ^ 128" and "- (2 ^ 128) < v"
  shows "round32 x = Finite v"
  using assms by (simp add: round32_def Let_def)

lemma powi_split: "a \<le> b \<Longrightarrow> (2::real) powi b = of_int (2 ^ nat (b - a)) * 2 powi a"
proof -
  assume ab: "a \<le> b"
  have "(2::real) powi b = 2 powi ((b - a) + a)" by simp
  also have "\<dots> = 2 powi (b - a) * 2 powi a"
    by (rule power_int_add) simp
  also have "(2::real) powi (b - a) = 2 ^ nat (b - a)"
    using ab by (simp add: power_int_nonneg_exp)
  finally show ?thesis by simp
qed

lemma round32_exact:
  assumes m: "\<bar>m\<bar> < 2 ^ 24" and k: "- 149 \<le> k" "k \<le> 104"
  shows "round32 (of_int m * 2 powi k) = Finite (of_int m * 2 powi k)"
proof -
  let ?x = "real_of_int m * 2 powi k"
  let ?E = "quantum \<bar>?x\<bar>"
  have pk: "(0::real) < 2 powi k" by simp
  have absx: "\<bar>?x\<bar> = real_of_int \<bar>m\<bar> * 2 powi k"
    by (simp add: abs_mult)
  have "real_of_int \<bar>m\<bar> < 2 ^ 24"
    using m by (metis of_int_less_iff of_int_numeral of_int_power)
  then have "\<bar>?x\<bar> < 2 ^ 24 * 2 powi k"
    unfolding absx using pk by (intro mult_strict_right_mono) simp_all
  also have "\<dots> = 2 powi (k + 24)"
    by (simp add: power_int_add)
  finally have lt: "\<bar>?x\<bar> < 2 powi (k + 24)" .
  then have Ek: "?E \<le> k"
    using k by (intro quantum_le) simp_all
  have split: "(2::real) powi k = of_int (2 ^ nat (k - ?E)) * 2 powi ?E"
    using Ek by (rule powi_split)
  have "?x / 2 powi ?E = of_int (m * 2 ^ nat (k - ?E))"
    by (subst split) simp
  then have r: "rne (?x / 2 powi ?E) = m * 2 ^ nat (k - ?E)"
    by (simp only: rne_of_int)
  have val: "?x = of_int (rne (?x / 2 powi ?E)) * 2 powi ?E"
    unfolding r by (subst split) simp
  have "(2::real) powi (k + 24) \<le> 2 powi 128"
    using k by (intro power_int_increasing) simp_all
  with lt have "\<bar>?x\<bar> < 2 ^ 128" by simp
  then have "?x < 2 ^ 128" and "- (2 ^ 128) < ?x" by (simp_all add: abs_less_iff)
  with val show ?thesis
    by (intro round32_FiniteI) simp_all
qed

lemma round32_0 [simp]: "round32 0 = Finite 0"
  using round32_exact [of 0 0] by simp

lemma round32_1 [simp]: "round32 1 = Finite 1"
  using round32_exact [of 1 0] by simp

lemma round32_of_int: "\<bar>m\<bar> < 2 ^ 24 \<Longrightarrow> round32 (of_int m) = Finite (of_int m)"
  using round32_exact [of m 0] by simp

lemma round32_numeral [simp]:
  "(numeral w :: int) < 2 ^ 24 \<Longrightarrow> round32 (numeral w) = Finite (numeral w)"
  using round32_of_int [of "numeral w"] by simp

lemma round32_neg_numeral [simp]:
  "(numeral w :: int) < 2 ^ 24 \<Longrightarrow> round32 (- numeral w) = Finite (- numeral w)"
  using round32_of_int [of "- numeral w"] by simp

lemma round32_half [simp]: "round32 (1 / 2) = Finite (1 / 2)"
  using round32_exact [of 1 "- 1"] by (simp add: power_int_minus)

lemma round32_le:
  assumes y: "0 \<le> y" "y \<le> c" and c: "round32 c = Finite c"
  shows "\<exists>v. round32 y = Finite v \<and> 0 \<le> v \<and> v \<le> c"
proof -
  let ?Ey = "quantum \<bar>y\<bar>" and ?Ec = "quantum \<bar>c\<bar>"
  let ?N = "rne (c / 2 powi ?Ec)"
  let ?v = "real_of_int (rne (y / 2 powi ?Ey)) * 2 powi ?Ey"
  have c0: "0 \<le> c" using y by simp
  have E: "?Ey \<le> ?Ec"
    using y by (intro quantum_mono) simp
  have cN: "c = of_int ?N * 2 powi ?Ec" and cbig: "c < 2 ^ 128"
    using round32_FiniteD [OF c] by simp_all
  have split: "(2::real) powi ?Ec = of_int (2 ^ nat (?Ec - ?Ey)) * 2 powi ?Ey"
    using E by (rule powi_split)
  have cM: "c = of_int (?N * 2 ^ nat (?Ec - ?Ey)) * 2 powi ?Ey"
    by (subst cN, subst split) simp
  then have "c / 2 powi ?Ey = of_int (?N * 2 ^ nat (?Ec - ?Ey))"
    by (simp add: field_simps)
  moreover have "y / 2 powi ?Ey \<le> c / 2 powi ?Ey"
    using y by (intro divide_right_mono) simp_all
  ultimately have "rne (y / 2 powi ?Ey) \<le> ?N * 2 ^ nat (?Ec - ?Ey)"
    using rne_mono [of "y / 2 powi ?Ey" "c / 2 powi ?Ey"] by (simp only: rne_of_int)
  then have "real_of_int (rne (y / 2 powi ?Ey)) \<le> of_int (?N * 2 ^ nat (?Ec - ?Ey))"
    by (simp only: of_int_le_iff)
  then have "?v \<le> of_int (?N * 2 ^ nat (?Ec - ?Ey)) * 2 powi ?Ey"
    by (intro mult_right_mono) simp_all
  with cM have vc: "?v \<le> c" by simp
  have "0 \<le> rne (y / 2 powi ?Ey)"
    using y by (intro rne_nonneg) simp
  then have v0: "0 \<le> ?v" by simp
  have "round32 y = Finite ?v"
    using vc cbig v0 by (intro round32_FiniteI) simp_all
  with v0 vc show ?thesis by blast
qed

lemma round32_repr:
  assumes "round32 y = Finite v"
  shows "round32 v = Finite v"
proof -
  let ?E = "quantum \<bar>y\<bar>"
  let ?n = "rne (y / 2 powi ?E)"
  have v: "v = of_int ?n * 2 powi ?E" and vhi: "v < 2 ^ 128" and vlo: "- (2 ^ 128) < v"
    using round32_FiniteD [OF assms] by simp_all
  have Er: "- 149 \<le> ?E" "?E \<le> 104" using quantum_range [of "\<bar>y\<bar>"] by simp_all
  show ?thesis
  proof (cases "\<bar>?n\<bar> < 2 ^ 24")
    case True
    from round32_exact [OF True Er] show ?thesis by (simp add: v)
  next
    case False
    then have big: "2 ^ 24 \<le> \<bar>?n\<bar>" by simp
    have E104: "?E < 104"
    proof (rule ccontr)
      assume "\<not> ?E < 104"
      with Er have E: "?E = 104" by simp
      have "real_of_int (2 ^ 24) \<le> real_of_int \<bar>?n\<bar>"
        using big by (simp only: of_int_le_iff)
      then have "2 ^ 24 * 2 powi ?E \<le> real_of_int \<bar>?n\<bar> * 2 powi ?E"
        by (intro mult_right_mono) simp_all
      also have "\<dots> = \<bar>v\<bar>" by (simp add: v abs_mult)
      finally have "2 ^ 128 \<le> \<bar>v\<bar>" by (simp add: E)
      with vhi vlo show False by (simp add: abs_if split: if_splits)
    qed
    have ylt: "\<bar>y\<bar> < 2 powi (?E + 24)"
      using E104 by (rule quantum_upper)
    define z where "z = y / 2 powi ?E"
    have "\<bar>z\<bar> < 2 ^ 24"
    proof -
      have "\<bar>z\<bar> = \<bar>y\<bar> / 2 powi ?E" by (simp add: z_def abs_divide)
      also have "\<dots> < 2 powi (?E + 24) / 2 powi ?E"
        using ylt by (intro divide_strict_right_mono) simp_all
      also have "\<dots> = 2 ^ 24" by (simp add: power_int_add)
      finally show ?thesis .
    qed
    then have "z \<le> real_of_int (2 ^ 24)" and "real_of_int (- (2 ^ 24)) \<le> z"
      by (auto simp: abs_less_iff)
    then have "y / 2 powi ?E \<le> real_of_int (2 ^ 24)" and "real_of_int (- (2 ^ 24)) \<le> y / 2 powi ?E"
      by (simp_all only: z_def)
    then have "?n \<le> 2 ^ 24" and "- (2 ^ 24) \<le> ?n"
      using rne_mono [of "y / 2 powi ?E" "real_of_int (2 ^ 24)"]
        rne_mono [of "real_of_int (- (2 ^ 24))" "y / 2 powi ?E"]
      by (simp_all only: rne_of_int)
    with big have "?n = 2 ^ 24 \<or> ?n = - (2 ^ 24)" by (simp add: abs_if split: if_splits)
    then show ?thesis
    proof
      assume n: "?n = 2 ^ 24"
      have "v = of_int (2 ^ 23) * 2 powi (?E + 1)"
        unfolding v n by (simp add: power_int_add)
      moreover have "round32 (of_int (2 ^ 23) * 2 powi (?E + 1)) = Finite (of_int (2 ^ 23) * 2 powi (?E + 1))"
        using Er E104 by (intro round32_exact) simp_all
      ultimately show ?thesis by simp
    next
      assume n: "?n = - (2 ^ 24)"
      have "v = of_int (- (2 ^ 23)) * 2 powi (?E + 1)"
        unfolding v n by (simp add: power_int_add)
      moreover have "round32 (of_int (- (2 ^ 23)) * 2 powi (?E + 1)) = Finite (of_int (- (2 ^ 23)) * 2 powi (?E + 1))"
        using Er E104 by (intro round32_exact) simp_all
      ultimately show ?thesis by simp
    qed
  qed
qed

text \<open>
  What the closure of the map needs: the error of rounding below 1, rounding just above
  1, and the exact results \<open>4 * x\<close> and \<open>1 - x\<close> (for \<open>x\<close> from \<open>1/2\<close> on).
\<close>

lemma round32_error_below_one:
  assumes a: "0 \<le> a" "a < 1"
  shows "\<exists>w. round32 a = Finite w \<and> 0 \<le> w \<and> w \<le> 1 \<and> w \<le> a + 1 / 2 ^ 25"
proof -
  let ?E = "quantum \<bar>a\<bar>"
  from round32_le [of a 1] a obtain w where w: "round32 a = Finite w" "0 \<le> w" "w \<le> 1"
    by auto
  have wv: "w = of_int (rne (a / 2 powi ?E)) * 2 powi ?E"
    using round32_FiniteD(1) [OF w(1)] .
  have E: "?E \<le> - 24"
    using a by (intro quantum_le) simp_all
  have "of_int (rne (a / 2 powi ?E)) - a / 2 powi ?E \<le> 1 / 2"
    using rne_error [of "a / 2 powi ?E"] by linarith
  then have "(of_int (rne (a / 2 powi ?E)) - a / 2 powi ?E) * 2 powi ?E \<le> 1 / 2 * 2 powi ?E"
    by (intro mult_right_mono) simp_all
  then have "w - a \<le> 1 / 2 * 2 powi ?E"
    by (simp add: wv algebra_simps)
  also have "(2::real) powi ?E \<le> 2 powi (- 24)"
    using E by (intro power_int_increasing) simp_all
  finally have "w - a \<le> 1 / 2 * 2 powi (- 24)" by simp
  then have "w \<le> a + 1 / 2 ^ 25" by (simp add: power_int_minus)
  with w show ?thesis by blast
qed

lemma round32_near_one:
  assumes p: "0 \<le> p" "p < 1 + 1 / 2 ^ 24"
  shows "\<exists>v. round32 p = Finite v \<and> 0 \<le> v \<and> v \<le> 1"
proof (cases "p \<le> 1")
  case True
  with round32_le [of p 1] p show ?thesis by simp
next
  case False
  then have p1: "1 < p" by simp
  let ?E = "quantum \<bar>p\<bar>"
  have "?E \<le> - 23"
    using p by (intro quantum_le) simp_all
  moreover have "- 23 \<le> ?E"
    using p1 by (intro quantum_ge) simp_all
  ultimately have E: "?E = - 23" by simp
  let ?v = "real_of_int (rne (p / 2 powi ?E)) * 2 powi ?E"
  have z: "p / 2 powi ?E = p * 2 ^ 23"
    by (simp add: E power_int_minus)
  have "p * 2 ^ 23 < real_of_int (2 ^ 23) + 1 / 2"
    using p(2) by simp
  then have "rne (p / 2 powi ?E) \<le> 2 ^ 23"
    unfolding z by (rule rne_below_half)
  then have "real_of_int (rne (p / 2 powi ?E)) \<le> real_of_int (2 ^ 23)"
    by (simp only: of_int_le_iff)
  then have "?v \<le> real_of_int (2 ^ 23) * 2 powi ?E"
    by (intro mult_right_mono) simp_all
  then have v1: "?v \<le> 1" by (simp add: E power_int_minus)
  have "0 \<le> rne (p / 2 powi ?E)"
    using p by (intro rne_nonneg) simp
  then have v0: "0 \<le> ?v" by simp
  have "round32 p = Finite ?v"
    using v0 v1 by (intro round32_FiniteI) simp_all
  with v0 v1 show ?thesis by blast
qed

lemma repr_mantissa:
  assumes x: "round32 x = Finite x" and E: "quantum \<bar>x\<bar> < 104"
  shows "\<bar>rne (x / 2 powi quantum \<bar>x\<bar>)\<bar> < 2 ^ 24"
proof -
  let ?E = "quantum \<bar>x\<bar>"
  let ?N = "rne (x / 2 powi ?E)"
  have xN: "x = of_int ?N * 2 powi ?E"
    using round32_FiniteD(1) [OF x] .
  have "\<bar>x\<bar> < 2 powi (?E + 24)" using E by (rule quantum_upper)
  also have "\<dots> = 2 ^ 24 * 2 powi ?E" by (simp add: power_int_add)
  finally have "\<bar>x\<bar> / 2 powi ?E < 2 ^ 24"
    by (simp add: field_simps)
  moreover have "\<bar>x\<bar> / 2 powi ?E = real_of_int \<bar>?N\<bar>"
    by (subst xN) (simp add: abs_mult)
  ultimately have "real_of_int \<bar>?N\<bar> < real_of_int (2 ^ 24)" by simp
  then show ?thesis by (simp only: of_int_less_iff)
qed

lemma repr_scale4:
  assumes x: "round32 x = Finite x" and x1: "\<bar>x\<bar> \<le> 1"
  shows "round32 (4 * x) = Finite (4 * x)"
proof -
  let ?E = "quantum \<bar>x\<bar>"
  let ?N = "rne (x / 2 powi ?E)"
  have xN: "x = of_int ?N * 2 powi ?E"
    using round32_FiniteD(1) [OF x] .
  have E: "?E \<le> - 23"
    using x1 by (intro quantum_le) simp_all
  then have N: "\<bar>?N\<bar> < 2 ^ 24"
    by (intro repr_mantissa [OF x]) simp
  have "4 * x = of_int ?N * 2 powi (?E + 2)"
    by (subst xN) (simp add: power_int_add)
  moreover have "round32 (of_int ?N * 2 powi (?E + 2)) = Finite (of_int ?N * 2 powi (?E + 2))"
    using N E quantum_range [of "\<bar>x\<bar>"] by (intro round32_exact) simp_all
  ultimately show ?thesis by simp
qed

lemma sterbenz_one:
  assumes x: "round32 x = Finite x" and lo: "1 / 2 \<le> x" and hi: "x \<le> 1"
  shows "round32 (1 - x) = Finite (1 - x)"
proof -
  let ?E = "quantum \<bar>x\<bar>"
  let ?N = "rne (x / 2 powi ?E)"
  have xN: "x = of_int ?N * 2 powi ?E"
    using round32_FiniteD(1) [OF x] .
  have E: "- 24 \<le> ?E"
    using lo by (intro quantum_ge) (simp_all add: power_int_minus)
  define M where "M = ?N * 2 ^ nat (?E + 24)"
  have split: "(2::real) powi ?E = of_int (2 ^ nat (?E - (- 24))) * 2 powi (- 24)"
    using E by (intro powi_split) simp
  have xM: "x = of_int M * 2 powi (- 24)"
    by (subst xN, subst split) (simp add: M_def)
  then have xM': "of_int M = x * 2 ^ 24"
    by (simp add: power_int_minus field_simps)
  have "real_of_int M \<le> real_of_int (2 ^ 24)" and "real_of_int (2 ^ 23) \<le> real_of_int M"
    unfolding xM' using lo hi by simp_all
  then have M: "M \<le> 2 ^ 24" "2 ^ 23 \<le> M"
    by (simp_all only: of_int_le_iff)
  have e: "1 - x = of_int (2 ^ 24 - M) * 2 powi (- 24)"
    by (subst xM) (simp add: power_int_minus field_simps)
  have "round32 (of_int (2 ^ 24 - M) * 2 powi (- 24)) =
      Finite (of_int (2 ^ 24 - M) * 2 powi (- 24))"
    using M by (intro round32_exact) simp_all
  then show ?thesis unfolding e .
qed

text \<open>
  One step of the map in \<^verbatim>\<open>float\<close>: \<open>r * x\<close> rounds to at most \<open>4 * x\<close>, and the product
  with the rounded \<open>1 - x\<close> stays below \<open>1 + 2 ^ - 24\<close>, which rounds to at most 1.
\<close>

lemma logistic_step_closed:
  assumes rv: "0 \<le> rv" "rv \<le> 4" and x: "0 \<le> x" "x \<le> 1" and rep: "round32 x = Finite x"
  shows "\<exists>v. fmul (fmul (Finite rv) (Finite x)) (fsub (Finite 1) (Finite x)) = Finite v \<and>
     0 \<le> v \<and> v \<le> 1 \<and> round32 v = Finite v"
proof -
  have rep4: "round32 (4 * x) = Finite (4 * x)"
    using rep x by (intro repr_scale4) simp_all
  have "0 \<le> rv * x" using rv x by simp
  moreover have "rv * x \<le> 4 * x" using rv x by (intro mult_right_mono) simp_all
  ultimately obtain u where u: "round32 (rv * x) = Finite u" "0 \<le> u" "u \<le> 4 * x"
    using round32_le [OF _ _ rep4] by blast
  have "\<exists>w. round32 (1 - x) = Finite w \<and> 0 \<le> w \<and> u * w < 1 + 1 / 2 ^ 24"
  proof (cases "1 / 2 \<le> x")
    case True
    have w: "round32 (1 - x) = Finite (1 - x)"
      using rep True x by (intro sterbenz_one) simp_all
    have "u * (1 - x) \<le> 4 * x * (1 - x)"
      using u x by (intro mult_right_mono) simp_all
    also have "\<dots> \<le> 1"
    proof -
      have "0 \<le> (2 * x - 1)\<^sup>2" by simp
      then show ?thesis by (simp add: power2_eq_square algebra_simps)
    qed
    finally have "u * (1 - x) < 1 + 1 / 2 ^ 24" by simp
    with w x show ?thesis by simp
  next
    case False
    then have xh: "x < 1 / 2" by simp
    show ?thesis
    proof (cases "x = 0")
      case True
      with u have "u = 0" by simp
      with True show ?thesis by simp
    next
      case False
      with x have "0 \<le> 1 - x" "1 - x < 1" by simp_all
      from round32_error_below_one [OF this] obtain w where
        w: "round32 (1 - x) = Finite w" "0 \<le> w" "w \<le> 1 - x + 1 / 2 ^ 25" by blast
      have "u * w \<le> 4 * x * w"
        using u w by (intro mult_right_mono) simp_all
      also have "\<dots> \<le> 4 * x * (1 - x + 1 / 2 ^ 25)"
        using w x by (intro mult_left_mono) simp_all
      also have "\<dots> = 4 * x * (1 - x) + x / 2 ^ 23"
        by (simp add: algebra_simps)
      also have "\<dots> < 1 + 1 / 2 ^ 24"
      proof -
        have "0 \<le> (2 * x - 1)\<^sup>2" by simp
        then have "4 * x * (1 - x) \<le> 1" by (simp add: power2_eq_square algebra_simps)
        moreover have "x / 2 ^ 23 < 1 / 2 ^ 24" using xh by simp
        ultimately show ?thesis by simp
      qed
      finally show ?thesis using w by blast
    qed
  qed
  then obtain w where w: "round32 (1 - x) = Finite w" "0 \<le> w" "u * w < 1 + 1 / 2 ^ 24"
    by blast
  have "0 \<le> u * w" using u w by simp
  from round32_near_one [OF this w(3)] obtain v where
    v: "round32 (u * w) = Finite v" "0 \<le> v" "v \<le> 1" by blast
  have "fmul (fmul (Finite rv) (Finite x)) (fsub (Finite 1) (Finite x)) = Finite v"
    by (simp add: u w v)
  with v round32_repr [OF v(1)] show ?thesis by blast
qed

text \<open>
  Two roundings, computed: the decimal \<open>0.1\<close> is not a binary32 number, and the nearest one
  to \<open>1 - 2 ^ - 26\<close> is 1. A host that stores a real number in a \<^verbatim>\<open>float\<close> cell stores
  its rounding.
\<close>

lemma quantum_eqI:
  "2 powi (j + 23) \<le> a \<Longrightarrow> a < 2 powi (j + 24) \<Longrightarrow> - 149 \<le> j \<Longrightarrow> j \<le> 104 \<Longrightarrow>
   quantum a = j"
  using quantum_le [of a j] quantum_ge [of j a] by simp

lemma round32_tenth: "round32 (1 / 10) = Finite (13421773 / 2 ^ 27)"
proof -
  have q: "quantum \<bar>1 / 10 :: real\<bar> = - 27"
    by (rule quantum_eqI) (simp_all add: power_int_minus)
  show ?thesis
    by (rule round32_FiniteI, unfold q) (simp_all add: rne_def Let_def power_int_minus)
qed

lemma round32_below_one: "round32 (1 - 1 / 2 ^ 26) = Finite 1"
proof -
  have q: "quantum \<bar>1 - 1 / 2 ^ 26 :: real\<bar> = - 24"
    by (rule quantum_eqI) (simp_all add: power_int_minus)
  show ?thesis
    by (rule round32_FiniteI, unfold q) (simp_all add: rne_def Let_def power_int_minus)
qed

text \<open>
  Two steps of the map from the binary32 number nearest to \<open>0.1\<close>, at the rate 4: both
  subtractions and both last products round, the second subtraction at a tie.
\<close>

lemma round32_ratio:
  assumes "quantum \<bar>x\<bar> = j" and "rne (x / 2 powi j) = m"
    and "v = of_int m * 2 powi j" and "v < 2 ^ 128" and "- (2 ^ 128) < v"
  shows "round32 x = Finite v"
  using assms by (intro round32_FiniteI) simp_all

lemma logistic_step_tenth:
  "fmul (fmul (Finite 4) (Finite (13421773 / 134217728)))
     (fsub (Finite 1) (Finite (13421773 / 134217728))) = Finite (12079595 / 33554432)"
proof -
  have t1: "round32 (4 * (13421773 / 134217728)) = Finite (13421773 / 33554432)"
    using round32_exact [of 13421773 "- 25"] by (simp add: power_int_minus)
  have t2: "round32 (1 - 13421773 / 134217728) = Finite (7549747 / 8388608)"
    by (rule round32_ratio [where j = "- 24" and m = 15099494])
       (simp_all add: quantum_eqI rne_def Let_def power_int_minus)
  have p: "round32 (13421773 / 33554432 * (7549747 / 8388608)) = Finite (12079595 / 33554432)"
    by (rule round32_ratio [where j = "- 25" and m = 12079595])
       (simp_all add: quantum_eqI rne_def Let_def power_int_minus)
  show ?thesis
    by (simp only: fmul.simps fsub.simps t1 t2 p)
qed

lemma logistic_step_tenth2:
  "fmul (fmul (Finite 4) (Finite (12079595 / 33554432)))
     (fsub (Finite 1) (Finite (12079595 / 33554432))) = Finite (15461881 / 16777216)"
proof -
  have t1: "round32 (4 * (12079595 / 33554432)) = Finite (12079595 / 8388608)"
    using round32_exact [of 12079595 "- 23"] by (simp add: power_int_minus)
  have t2: "round32 (1 - 12079595 / 33554432) = Finite (5368709 / 8388608)"
    by (rule round32_ratio [where j = "- 24" and m = 10737418])
       (simp_all add: quantum_eqI rne_def Let_def power_int_minus)
  have p: "round32 (12079595 / 8388608 * (5368709 / 8388608)) = Finite (15461881 / 16777216)"
    by (rule round32_ratio [where j = "- 24" and m = 15461881])
       (simp_all add: quantum_eqI rne_def Let_def power_int_minus)
  show ?thesis
    by (simp only: fmul.simps fsub.simps t1 t2 p)
qed

subsection \<open>The loop\<close>

lemma write_orbit_0 [simp]: "write_orbit rv x b 0 st = st"
  by (auto simp: write_orbit_def fun_eq_iff)

lemma run_loop_orbit:
  "outbuf inst = Some b \<Longrightarrow> 0 \<le> i \<Longrightarrow> i + int m \<le> INT_MAX \<Longrightarrow>
   run_loop rv (nat i + m) i (inst, st) =
     Inr (inst\<lparr> current := logistic_orbit rv (current inst) m \<rparr>,
          write_orbit rv (current inst) (b + nat i) m st)"
proof (induction m arbitrary: i inst st)
  case 0
  then show ?case
    by (simp add: run_loop.simps [of rv "nat i" i])
next
  case (Suc m)
  let ?inst' = "inst\<lparr> current :=
    fmul (fmul rv (current inst)) (fsub (Finite 1) (current inst)) \<rparr>"
  let ?st' = "st(b + nat i := current inst)"
  have ne: "i \<noteq> INT_MAX" using Suc.prems by simp
  have idx: "nat (i + 1) + m = nat i + Suc m" using Suc.prems by simp
  have rec: "run_loop rv (nat (i + 1) + m) (i + 1) (?inst', ?st') =
      Inr (?inst'\<lparr> current := logistic_orbit rv (current ?inst') m \<rparr>,
           write_orbit rv (current ?inst') (b + nat (i + 1)) m ?st')"
    using Suc.prems by (intro Suc.IH) simp_all
  have st_eq: "write_orbit rv (current ?inst') (b + nat (i + 1)) m ?st' =
      write_orbit rv (current inst) (b + nat i) (Suc m) st"
  proof
    fix a
    have s: "nat (i + 1) = Suc (nat i)" using Suc.prems by simp
    show "write_orbit rv (current ?inst') (b + nat (i + 1)) m ?st' a =
      write_orbit rv (current inst) (b + nat i) (Suc m) st a"
    proof (cases "a = b + nat i")
      case True
      then show ?thesis by (simp add: write_orbit_def s)
    next
      case False
      show ?thesis
      proof (cases "b + nat i < a \<and> a < b + nat i + Suc m")
        case True
        then have "a - (b + nat i) = Suc (a - (b + Suc (nat i)))" by arith
        with True show ?thesis by (simp add: write_orbit_def s)
      next
        case False
        with \<open>a \<noteq> b + nat i\<close> show ?thesis
          by (auto simp: write_orbit_def s)
      qed
    qed
  qed
  have "run_loop rv (nat i + Suc m) i (inst, st) =
      run_loop rv (nat i + Suc m) (i + 1) (?inst', ?st')"
    using Suc.prems ne
    by (subst run_loop.simps) (simp add: Let_def)
  also have "\<dots> = Inr (?inst'\<lparr> current := logistic_orbit rv (current ?inst') m \<rparr>,
           write_orbit rv (current ?inst') (b + nat (i + 1)) m ?st')"
    using rec by (simp only: idx)
  finally show ?case using st_eq by simp
qed

lemma run_loop_overflow:
  "outbuf inst = Some b \<Longrightarrow> 0 \<le> i \<Longrightarrow> i + int m = INT_MAX \<Longrightarrow> INT_MAX < int n \<Longrightarrow>
   run_loop rv n i (inst, st) = Inl SignedOverflow"
proof (induction m arbitrary: i inst st)
  case 0
  then show ?case
    by (subst run_loop.simps) (simp add: Let_def)
next
  case (Suc m)
  let ?inst' = "inst\<lparr> current :=
    fmul (fmul rv (current inst)) (fsub (Finite 1) (current inst)) \<rparr>"
  let ?st' = "st(b + nat i := current inst)"
  have "run_loop rv n i (inst, st) = run_loop rv n (i + 1) (?inst', ?st')"
    using Suc.prems by (subst run_loop.simps) (simp add: Let_def)
  also have "\<dots> = Inl SignedOverflow"
    using Suc.prems by (intro Suc.IH) simp_all
  finally show ?case .
qed

subsection \<open>The run operation\<close>

lemma clamped_rate_NaN [simp]: "clamped_rate NaN = NaN"
  by (simp add: clamped_rate_def)

lemma clamped_rate_range:
  "r0 \<noteq> NaN \<Longrightarrow> \<exists>rv. clamped_rate r0 = Finite rv \<and> 0 \<le> rv \<and> rv \<le> 4"
  by (cases r0) (auto simp: clamped_rate_def)

lemma clamped_rate_inside:
  "0 \<le> rv \<Longrightarrow> rv \<le> 4 \<Longrightarrow> clamped_rate (Finite rv) = Finite rv"
  by (simp add: clamped_rate_def)

lemma lmng_run_clamped:
  "r inst = Some ra \<Longrightarrow>
   lmng_run inst n st = run_loop (clamped_rate (st ra)) n 0 (inst, st)"
  by (simp add: lmng_run_def clamped_rate_def Let_def)

lemma lmng_run_orbit:
  assumes "r inst = Some ra" and "outbuf inst = Some b" and "int n \<le> INT_MAX"
  shows "lmng_run inst n st =
     Inr (inst\<lparr> current := logistic_orbit (clamped_rate (st ra)) (current inst) n \<rparr>,
          write_orbit (clamped_rate (st ra)) (current inst) b n st)"
proof -
  have "run_loop (clamped_rate (st ra)) (nat 0 + n) 0 (inst, st) =
     Inr (inst\<lparr> current := logistic_orbit (clamped_rate (st ra)) (current inst) n \<rparr>,
          write_orbit (clamped_rate (st ra)) (current inst) (b + nat 0) n st)"
    using assms by (intro run_loop_orbit) simp_all
  then show ?thesis
    using assms(1) by (simp add: lmng_run_clamped)
qed

lemma lmng_run_overflow:
  assumes "r inst = Some ra" and "outbuf inst = Some b" and "INT_MAX < int n"
  shows "lmng_run inst n st = Inl SignedOverflow"
proof -
  have "0 + int (nat INT_MAX) = INT_MAX"
    by (simp add: INT_MAX_def)
  then have "run_loop (clamped_rate (st ra)) n 0 (inst, st) = Inl SignedOverflow"
    using assms by (intro run_loop_overflow [where m = "nat INT_MAX"]) simp_all
  then show ?thesis
    using assms(1) by (simp add: lmng_run_clamped)
qed

lemma lmng_run_zero:
  "r inst = Some ra \<Longrightarrow> lmng_run inst 0 st = Inr (inst, st)"
  by (simp add: lmng_run_clamped run_loop.simps [of _ 0 0])

lemma out_samples_write_orbit:
  "out_samples b n (write_orbit rv x b n st) = map (logistic_orbit rv x) [0..<n]"
  by (simp add: out_samples_def write_orbit_def)

lemma length_out_samples [simp]: "length (out_samples b n st) = n"
  by (simp add: out_samples_def)

lemma nth_out_samples [simp]: "k < n \<Longrightarrow> out_samples b n st ! k = st (b + k)"
  by (simp add: out_samples_def)

subsection \<open>The recurrence\<close>

lemma logistic_orbit_closed:
  "0 \<le> rv \<Longrightarrow> rv \<le> 4 \<Longrightarrow> 0 \<le> x \<Longrightarrow> x \<le> 1 \<Longrightarrow> round32 x = Finite x \<Longrightarrow>
   \<exists>v. logistic_orbit (Finite rv) (Finite x) k = Finite v \<and> 0 \<le> v \<and> v \<le> 1"
proof (induction k arbitrary: x)
  case 0
  then show ?case by simp
next
  case (Suc k)
  from logistic_step_closed [OF Suc.prems] obtain v where
    v: "fmul (fmul (Finite rv) (Finite x)) (fsub (Finite 1) (Finite x)) = Finite v"
      "0 \<le> v" "v \<le> 1" "round32 v = Finite v"
    by blast
  from Suc.IH [OF Suc.prems(1,2) v(2,3,4)] show ?case
    by (simp only: logistic_orbit.simps v(1))
qed

lemma logistic_orbit_zero [simp]: "logistic_orbit (Finite rv) (Finite 0) k = Finite 0"
  by (induction k) simp_all

lemma logistic_orbit_one:
  assumes "0 \<le> rv" and "rv \<le> 4"
  shows "logistic_orbit (Finite rv) (Finite 1) k = (if k = 0 then Finite 1 else Finite 0)"
proof (cases k)
  case 0
  then show ?thesis by simp
next
  case (Suc j)
  have "round32 4 = Finite 4" by simp
  from round32_le [OF assms this] obtain u where "round32 rv = Finite u" by blast
  then show ?thesis by (simp add: Suc)
qed

lemma logistic_orbit_NaN: "logistic_orbit NaN x (Suc k) = NaN"
proof -
  have "logistic_orbit NaN NaN j = NaN" for j
    by (induction j) simp_all
  then show ?thesis by simp
qed

lemma lmng_run_samples:
  assumes "r inst = Some ra" and "outbuf inst = Some b" and "int n \<le> INT_MAX"
  shows "\<exists>inst' st'. lmng_run inst n st = Inr (inst', st') \<and>
     out_samples b n st' = map (logistic_orbit (clamped_rate (st ra)) (current inst)) [0..<n] \<and>
     current inst' = logistic_orbit (clamped_rate (st ra)) (current inst) n \<and>
     (\<forall>a. a < b \<or> b + n \<le> a \<longrightarrow> st' a = st a)"
  using lmng_run_orbit [OF assms, of st]
  by (simp add: out_samples_write_orbit) (simp add: write_orbit_def)

lemma activate_run_eq:
  "seed inst = Some sa \<Longrightarrow>
   activate_run inst n st = lmng_run (inst\<lparr> current := st sa \<rparr>) n st"
  by (simp add: activate_run_def lmng_activate_def)

lemma activate_run_first_sample:
  assumes "r inst = Some ra" and "seed inst = Some sa" and "outbuf inst = Some b"
    and "0 < n" and "int n \<le> INT_MAX"
  shows "\<exists>inst' st'. activate_run inst n st = Inr (inst', st') \<and> st' b = st sa"
proof -
  have "lmng_run (inst\<lparr> current := st sa \<rparr>) n st =
     Inr (inst\<lparr> current := st sa \<rparr>
            \<lparr> current := logistic_orbit (clamped_rate (st ra)) (st sa) n \<rparr>,
          write_orbit (clamped_rate (st ra)) (st sa) b n st)"
    using lmng_run_orbit [of "inst\<lparr> current := st sa \<rparr>" ra b n st] assms by simp
  then show ?thesis
    using assms by (simp add: activate_run_eq write_orbit_def)
qed

lemma current_connect [simp]: "current (lmng_connect inst port location) = current inst"
  by (simp add: lmng_connect_def)

lemma current_connect_all [simp]: "current (connect_all binds inst) = current inst"
  unfolding connect_all_def
  by (induction binds arbitrary: inst) (simp_all add: split_beta)

text \<open>
  For every rate cell the loop runs with the one rate \<open>clamped_rate\<close> of it, which lies in
  \<open>[0, 4]\<close> unless the cell holds a NaN; a run with 10 in the rate cell gives the same
  final instance and output samples as one with 4 there, and \<open>-5\<close> the same as 0, for every
  sample count and also when the output buffer overlaps the rate cell.
\<close>

lemma clamp_law:
  assumes "r inst = Some ra" and "outbuf inst = Some b"
  shows "lmng_run inst n st = run_loop (clamped_rate (st ra)) n 0 (inst, st) \<and>
     (st ra \<noteq> NaN \<longrightarrow> (\<exists>rv. clamped_rate (st ra) = Finite rv \<and> 0 \<le> rv \<and> rv \<le> 4)) \<and>
     run_observed b n (lmng_run inst n (st(ra := Finite 10))) =
       run_observed b n (lmng_run inst n (st(ra := Finite 4))) \<and>
     run_observed b n (lmng_run inst n (st(ra := Finite (- 5)))) =
       run_observed b n (lmng_run inst n (st(ra := Finite 0)))"
proof -
  have same: "run_observed b n (lmng_run inst n (st(ra := v))) =
      run_observed b n (lmng_run inst n (st(ra := w)))"
    if "clamped_rate v = clamped_rate w" for v w
  proof (cases "int n \<le> INT_MAX")
    case True
    show ?thesis
      using that
      by (simp add: lmng_run_orbit [OF assms True] run_observed_def out_samples_write_orbit)
  next
    case False
    then have "INT_MAX < int n" by simp
    then show ?thesis
      by (simp add: lmng_run_overflow [OF assms])
  qed
  have hi: "run_observed b n (lmng_run inst n (st(ra := Finite 10))) =
      run_observed b n (lmng_run inst n (st(ra := Finite 4)))"
    by (rule same) (simp add: clamped_rate_def)
  have lo: "run_observed b n (lmng_run inst n (st(ra := Finite (- 5)))) =
      run_observed b n (lmng_run inst n (st(ra := Finite 0)))"
    by (rule same) (simp add: clamped_rate_def)
  have "lmng_run inst n st = run_loop (clamped_rate (st ra)) n 0 (inst, st)"
    using assms(1) by (rule lmng_run_clamped)
  with hi lo clamped_rate_range [of "st ra"] show ?thesis
    by blast
qed

section \<open>The claims\<close>

text \<open>
  C1. Claim: for every instance with its ports bound and every sample count, run writes
  exactly that many samples, sample \<open>i\<close> being the state before step \<open>i\<close>. With the
  three ports bound and a sample count of 2147483649, the \<^verbatim>\<open>int\<close> counter of the loop
  reaches \<^verbatim>\<open>INT_MAX\<close> below the count and its increment overflows. (For counts up to
  \<^verbatim>\<open>INT_MAX\<close> the claim holds: \<open>lmng_run_samples\<close>, \<open>activate_run_first_sample\<close>.)
\<close>

theorem run_counter_overflows:
  "activate_run host_inst 2147483649 (host_store (Finite 4) (Finite (1 / 2))) =
     Inl SignedOverflow"
proof -
  have "lmng_run (host_inst\<lparr> current := host_store (Finite 4) (Finite (1 / 2)) 1 \<rparr>)
          2147483649 (host_store (Finite 4) (Finite (1 / 2))) = Inl SignedOverflow"
    by (rule lmng_run_overflow [where ra = 0 and b = 2])
       (simp_all add: host_inst_def INT_MAX_def)
  then show ?thesis
    by (simp add: activate_run_eq [where sa = 1] host_inst_def)
qed

text \<open>
  C2. Claim: in every run call the growth rate is clamped to \<open>[0, 4]\<close>. When the rate
  cell holds a NaN, both tests of the clamp are false and the loop runs with the rate
  NaN: after activation with seed \<open>1/2\<close>, a run of two samples writes \<open>1/2\<close> and NaN and
  leaves \<open>current\<close> a NaN. (For every other rate the claim holds, and 10 behaves as 4 and
  \<open>-5\<close> as 0: \<open>clamp_law\<close>.)
\<close>

theorem nan_rate_not_clamped:
  "clamped_rate (host_store NaN (Finite (1 / 2)) 0) = NaN \<and>
   run_observed 2 2 (activate_run host_inst 2 (host_store NaN (Finite (1 / 2)))) =
     Inr (host_inst\<lparr> current := NaN \<rparr>, [Finite (1 / 2), NaN])"
  by (simp add: activate_run_def lmng_activate_def lmng_run_def run_loop.simps Let_def
      host_inst_def host_store_def run_observed_def out_samples_def INT_MAX_def upt_rec)

text \<open>
  C3. The logistic map with a rate in \<open>[0, 4]\<close>, computed in \<^verbatim>\<open>float\<close>, sends the
  \<^verbatim>\<open>float\<close> numbers of \<open>[0, 1]\<close> into \<open>[0, 1]\<close>. Hence a run that starts with \<open>current\<close>
  in \<open>[0, 1]\<close>, with a rate cell that does not hold a NaN, returns with \<open>current\<close> in
  \<open>[0, 1]\<close>, being the \<open>n\<close>-th iterate of the map at the clamped rate, and every sample it
  wrote lies in \<open>[0, 1]\<close>.
\<close>

theorem run_stays_in_unit_interval:
  assumes "r inst = Some ra" and "outbuf inst = Some b" and "int n \<le> INT_MAX"
    and "st ra \<noteq> NaN" and "in_unit (current inst)" and "is_binary32 (current inst)"
  shows "\<exists>inst' st'. lmng_run inst n st = Inr (inst', st') \<and>
     current inst' = logistic_orbit (clamped_rate (st ra)) (current inst) n \<and>
     in_unit (current inst') \<and>
     (\<forall>k<n. st' (b + k) = logistic_orbit (clamped_rate (st ra)) (current inst) k \<and>
        in_unit (st' (b + k)))"
proof -
  from clamped_rate_range [OF assms(4)] obtain rv where
    rv: "clamped_rate (st ra) = Finite rv" "0 \<le> rv" "rv \<le> 4" by blast
  from assms(5,6) obtain x where
    x: "current inst = Finite x" "0 \<le> x" "x \<le> 1" "round32 x = Finite x"
    by (cases "current inst") (simp_all add: in_unit_def is_binary32_def)
  have closed: "in_unit (logistic_orbit (Finite rv) (Finite x) k)" for k
    using logistic_orbit_closed [OF rv(2,3) x(2,3,4), of k] by (auto simp: in_unit_def)
  have cell: "write_orbit (Finite rv) (Finite x) b n st (b + k) =
      logistic_orbit (Finite rv) (Finite x) k" if "k < n" for k
    using that by (simp add: write_orbit_def)
  show ?thesis
    using lmng_run_orbit [OF assms(1-3), of st] closed
    by (simp add: cell rv(1) x(1))
qed

theorem run_stays_in_unit_interval_witness:
  "r host_inst = Some 0 \<and> outbuf host_inst = Some 2 \<and> int 2 \<le> INT_MAX \<and>
   host_store (Finite 10) (Finite (1 / 2)) 0 \<noteq> NaN \<and>
   in_unit (Finite (13421773 / 134217728)) \<and> is_binary32 (Finite (13421773 / 134217728)) \<and>
   lmng_run (host_inst\<lparr> current := Finite (13421773 / 134217728) \<rparr>) 2
       (host_store (Finite 10) (Finite (1 / 2))) =
     Inr (host_inst\<lparr> current := Finite (15461881 / 16777216) \<rparr>,
          (host_store (Finite 10) (Finite (1 / 2)))
            (2 := Finite (13421773 / 134217728), 3 := Finite (12079595 / 33554432))) \<and>
   (\<exists>inst' st'.
      lmng_run (host_inst\<lparr> current := Finite (13421773 / 134217728) \<rparr>) 2
        (host_store (Finite 10) (Finite (1 / 2))) = Inr (inst', st') \<and>
      in_unit (current inst') \<and> (\<forall>k<2. in_unit (st' (2 + k))))"
proof -
  have run: "lmng_run (host_inst\<lparr> current := Finite (13421773 / 134217728) \<rparr>) 2
       (host_store (Finite 10) (Finite (1 / 2))) =
     Inr (host_inst\<lparr> current := Finite (15461881 / 16777216) \<rparr>,
          (host_store (Finite 10) (Finite (1 / 2)))
            (2 := Finite (13421773 / 134217728), 3 := Finite (12079595 / 33554432)))"
    by (simp add: lmng_run_def run_loop.simps Let_def host_inst_def host_store_def
        INT_MAX_def logistic_step_tenth logistic_step_tenth2 del: fmul.simps fsub.simps)
  have rep: "is_binary32 (Finite (13421773 / 134217728))"
    using round32_exact [of 13421773 "- 27"] by (simp add: is_binary32_def power_int_minus)
  have hyps: "r host_inst = Some 0 \<and> outbuf host_inst = Some 2 \<and> int 2 \<le> INT_MAX \<and>
      host_store (Finite 10) (Finite (1 / 2)) 0 \<noteq> NaN \<and>
      in_unit (Finite (13421773 / 134217728))"
    by (simp add: host_inst_def host_store_def INT_MAX_def in_unit_def)
  from hyps rep run_stays_in_unit_interval
    [of "host_inst\<lparr> current := Finite (13421773 / 134217728) \<rparr>" 0 2 2
        "host_store (Finite 10) (Finite (1 / 2))"]
  have "\<exists>inst' st'.
      lmng_run (host_inst\<lparr> current := Finite (13421773 / 134217728) \<rparr>) 2
        (host_store (Finite 10) (Finite (1 / 2))) = Inr (inst', st') \<and>
      in_unit (current inst') \<and> (\<forall>k<2. in_unit (st' (2 + k)))"
    by (simp add: host_inst_def) blast
  with hyps rep run show ?thesis by blast
qed

text \<open>
  C4. Claim: seeds 0 and 1 are both fixed points, so a run after activation writes the
  seed at every sample and leaves \<open>current\<close> equal to the seed. For seed 1 this fails: the
  map sends 1 to 0, so two samples after activation with seed 1 are 1 and 0, and
  \<open>current\<close> ends as 0.
\<close>

theorem seed_one_not_fixed:
  "host_store (Finite 4) (Finite 1) 1 = Finite 1 \<and>
   run_observed 2 2 (activate_run host_inst 2 (host_store (Finite 4) (Finite 1))) =
     Inr (host_inst\<lparr> current := Finite 0 \<rparr>, [Finite 1, Finite 0]) \<and>
   run_observed 2 2 (activate_run host_inst 2 (host_store (Finite 4) (Finite 1))) \<noteq>
     Inr (host_inst\<lparr> current := Finite 1 \<rparr>, [Finite 1, Finite 1])"
  by (simp add: activate_run_def lmng_activate_def lmng_run_def run_loop.simps Let_def
      host_inst_def host_store_def run_observed_def out_samples_def INT_MAX_def upt_rec)

text \<open>
  C4, amended. Provided the rate cell does not hold a NaN: after activation with seed 0,
  a run of up to \<^verbatim>\<open>INT_MAX\<close> samples writes only zeros and leaves \<open>current\<close> at 0; after
  activation with seed 1, the first sample is 1, every later sample is 0, and \<open>current\<close>
  is 0 after a run of at least one sample (and still 1 after a run of none).
\<close>

theorem seeds_zero_and_one:
  assumes "r inst = Some ra" and "seed inst = Some sa" and "outbuf inst = Some b"
    and "int n \<le> INT_MAX" and "st ra \<noteq> NaN"
    and "st sa = Finite 0 \<or> st sa = Finite 1"
  shows "\<exists>inst' st'. activate_run inst n st = Inr (inst', st') \<and>
     out_samples b n st' =
       (if st sa = Finite 0 then replicate n (Finite 0)
        else take n (Finite 1 # replicate n (Finite 0))) \<and>
     current inst' = (if n = 0 then st sa else Finite 0)"
proof -
  from clamped_rate_range [OF assms(5)] obtain rv where
    rv: "clamped_rate (st ra) = Finite rv" "0 \<le> rv" "rv \<le> 4" by blast
  have one: "logistic_orbit (Finite rv) (Finite 1) k = (if k = 0 then Finite 1 else Finite 0)"
    for k
    using rv(2,3) by (rule logistic_orbit_one)
  have zeros: "map (logistic_orbit (Finite rv) (Finite 0)) [0..<n] = replicate n (Finite 0)"
    by (rule nth_equalityI) simp_all
  have ones: "map (logistic_orbit (Finite rv) (Finite 1)) [0..<n] =
      take n (Finite 1 # replicate n (Finite 0))"
    by (rule nth_equalityI) (auto simp: one nth_Cons split: nat.splits)
  have run: "lmng_run (inst\<lparr> current := st sa \<rparr>) n st =
     Inr (inst\<lparr> current := st sa \<rparr>\<lparr> current := logistic_orbit (Finite rv) (st sa) n \<rparr>,
          write_orbit (Finite rv) (st sa) b n st)"
    using lmng_run_orbit [of "inst\<lparr> current := st sa \<rparr>" ra b n st] assms(1,3,4)
    by (simp add: rv(1))
  from assms(6) show ?thesis
  proof
    assume "st sa = Finite 0"
    then show ?thesis
      using run zeros by (simp add: activate_run_eq [OF assms(2)] out_samples_write_orbit)
  next
    assume "st sa = Finite 1"
    then show ?thesis
      using run ones by (simp add: activate_run_eq [OF assms(2)] out_samples_write_orbit one)
  qed
qed

theorem seeds_zero_and_one_witness:
  "r host_inst = Some 0 \<and> seed host_inst = Some 1 \<and> outbuf host_inst = Some 2 \<and>
   int 3 \<le> INT_MAX \<and> host_store (Finite 4) (Finite 1) 0 \<noteq> NaN \<and>
   host_store (Finite 4) (Finite 1) 1 = Finite 1 \<and>
   out_samples 2 3 (host_store (Finite 4) (Finite 1)) = [Finite 9, Finite 9, Finite 9] \<and>
   (\<exists>inst' st'. activate_run host_inst 3 (host_store (Finite 4) (Finite 1)) = Inr (inst', st') \<and>
      out_samples 2 3 st' = [Finite 1, Finite 0, Finite 0] \<and> current inst' = Finite 0)"
  using seeds_zero_and_one [of host_inst 0 1 2 3 "host_store (Finite 4) (Finite 1)"]
  by (simp add: host_inst_def host_store_def INT_MAX_def numeral_2_eq_2 out_samples_def
      upt_rec)

text \<open>
  C5. Claim: run never fails, for any sample count, and completes the requested count.
  With the ports bound and a sample count of 2147483648, the first count above
  \<^verbatim>\<open>INT_MAX\<close>, the increment of the \<^verbatim>\<open>int\<close> counter overflows after the last sample.
  (A run of no sample returns the instance and the store as they were: \<open>lmng_run_zero\<close>.)
\<close>

theorem run_fails_above_INT_MAX:
  "lmng_run (host_inst\<lparr> current := Finite (1 / 2) \<rparr>) 2147483648
     (host_store (Finite 4) (Finite (1 / 2))) = Inl SignedOverflow"
  by (rule lmng_run_overflow [where ra = 0 and b = 2])
     (simp_all add: host_inst_def INT_MAX_def)

text \<open>
  C6. Discovery is a function of the index alone: index 0 gives the address of the one
  descriptor, every index above 0 gives the null pointer.
\<close>

theorem discovery_lookup:
  "ladspa_descriptor 0 = Some Plugin_ref \<and>
   (0 < Index \<longrightarrow> ladspa_descriptor Index = None)"
  by (simp add: ladspa_descriptor_def)

theorem discovery_lookup_witness:
  "(0::nat) < 5 \<and> ladspa_descriptor 0 = Some Plugin_ref \<and> ladspa_descriptor 5 = None"
  using discovery_lookup [of 5] by simp

text \<open>
  C7. Instantiation returns the null handle exactly when the descriptor pointer is not
  the address of this plugin's descriptor; for that address it returns a new instance,
  with null port pointers and \<open>current = 0\<close>, whatever the sample rate.
\<close>

theorem instantiate_identity:
  "(lmng_new desc samplerate = None) = (desc \<noteq> Some Plugin_ref) \<and>
   lmng_new (Some Plugin_ref) samplerate =
     Some \<lparr> r = None, seed = None, outbuf = None, current = Finite 0 \<rparr>"
  by (simp add: lmng_new_def)

theorem instantiate_identity_witness:
  "lmng_new (Some (Foreign_ref 7)) 44100 = None \<and> lmng_new None 44100 = None \<and>
   lmng_new (Some Plugin_ref) 44100 =
     Some \<lparr> r = None, seed = None, outbuf = None, current = Finite 0 \<rparr>"
  using instantiate_identity [of "Some (Foreign_ref 7)" 44100]
    instantiate_identity [of None 44100]
  by simp

text \<open>
  C8. Connecting port 0, 1 or 2 replaces the binding of \<open>r\<close>, \<open>seed\<close> or \<open>outbuf\<close> and
  nothing else; any other port index leaves the instance as it was. A later binding of a
  port replaces the earlier one, and activate and run read through the bindings made
  last.
\<close>

theorem connect_frame:
  "lmng_connect inst 0 location = inst\<lparr> r := location \<rparr> \<and>
   lmng_connect inst 1 location = inst\<lparr> seed := location \<rparr> \<and>
   lmng_connect inst 2 location = inst\<lparr> outbuf := location \<rparr> \<and>
   (2 < port \<longrightarrow> lmng_connect inst port location = inst) \<and>
   lmng_connect (lmng_connect inst port location) port location' =
     lmng_connect inst port location' \<and>
   lmng_activate (lmng_connect (lmng_connect inst 1 location) 1 (Some sa)) st =
     Inr (inst\<lparr> seed := Some sa, current := st sa \<rparr>) \<and>
   lmng_run (lmng_connect (lmng_connect (lmng_connect (lmng_connect inst
       0 location) 2 location') 0 (Some ra)) 2 (Some b)) 1 st =
     Inr (inst\<lparr> r := Some ra, outbuf := Some b,
            current := fmul (fmul (clamped_rate (st ra)) (current inst))
              (fsub (Finite 1) (current inst)) \<rparr>,
          st(b := current inst))"
  by (simp add: lmng_connect_def PORT_R_def PORT_SEED_def PORT_OUT_def lmng_activate_def
      lmng_run_clamped run_loop.simps Let_def INT_MAX_def)

theorem connect_frame_witness:
  "(2::nat) < 3 \<and> lmng_connect host_inst 3 (Some 9) = host_inst \<and>
   lmng_connect host_inst 0 (Some 9) = host_inst\<lparr> r := Some 9 \<rparr> \<and>
   lmng_connect host_inst 1 (Some 9) = host_inst\<lparr> seed := Some 9 \<rparr> \<and>
   lmng_connect host_inst 2 (Some 9) = host_inst\<lparr> outbuf := Some 9 \<rparr>"
  using connect_frame [of host_inst "Some 9" 3]
  by simp

text \<open>
  C9. Activation copies the value of the seed cell into \<open>current\<close> as it is, whatever
  the value; connecting a port never changes \<open>current\<close>. Activating and running \<open>n\<close>
  samples, then activating and running \<open>n\<close> samples again on a store \<open>st'\<close> whose seed
  and rate cells hold the values they held the first time, writes the same \<open>n\<close> samples
  and reaches the same instance state.
\<close>

theorem reactivate_repeats:
  assumes "r inst = Some ra" and "seed inst = Some sa" and "outbuf inst = Some b"
    and "int n \<le> INT_MAX" and "st' sa = st sa" and "st' ra = st ra"
  shows "lmng_activate inst st = Inr (inst\<lparr> current := st sa \<rparr>) \<and>
     current (lmng_connect inst port location) = current inst \<and>
     (\<exists>inst1 st1 inst2 st2.
        activate_run inst n st = Inr (inst1, st1) \<and>
        activate_run inst1 n st' = Inr (inst2, st2) \<and>
        out_samples b n st2 = out_samples b n st1 \<and> inst2 = inst1)"
proof -
  let ?rv = "clamped_rate (st ra)"
  let ?inst1 = "inst\<lparr> current := logistic_orbit ?rv (st sa) n \<rparr>"
  have first: "activate_run inst n st = Inr (?inst1, write_orbit ?rv (st sa) b n st)"
    using lmng_run_orbit [of "inst\<lparr> current := st sa \<rparr>" ra b n st] assms(1-4)
    by (simp add: activate_run_eq)
  have second: "activate_run ?inst1 n st' = Inr (?inst1, write_orbit ?rv (st sa) b n st')"
    using lmng_run_orbit [of "inst\<lparr> current := st sa \<rparr>" ra b n st'] assms
    by (simp add: activate_run_eq [of ?inst1 sa])
  have "lmng_activate inst st = Inr (inst\<lparr> current := st sa \<rparr>)"
    using assms(2) by (simp add: lmng_activate_def)
  with first second show ?thesis
    by (simp add: out_samples_write_orbit)
qed

theorem reactivate_repeats_witness:
  "r host_inst = Some 0 \<and> seed host_inst = Some 1 \<and> outbuf host_inst = Some 2 \<and>
   int 2 \<le> INT_MAX \<and>
   ((host_store (Finite 2) (Finite 7))(2 := Finite 7, 3 := Finite (- 84))) 1 =
     host_store (Finite 2) (Finite 7) 1 \<and>
   ((host_store (Finite 2) (Finite 7))(2 := Finite 7, 3 := Finite (- 84))) 0 =
     host_store (Finite 2) (Finite 7) 0 \<and>
   lmng_activate host_inst (host_store (Finite 2) (Finite 7)) =
     Inr (host_inst\<lparr> current := Finite 7 \<rparr>) \<and>
   (\<exists>inst1 inst2 st2.
      activate_run host_inst 2 (host_store (Finite 2) (Finite 7)) =
        Inr (inst1, (host_store (Finite 2) (Finite 7))(2 := Finite 7, 3 := Finite (- 84))) \<and>
      activate_run inst1 2 ((host_store (Finite 2) (Finite 7))(2 := Finite 7, 3 := Finite (- 84))) =
        Inr (inst2, st2) \<and>
      out_samples 2 2 st2 = [Finite 7, Finite (- 84)] \<and> inst2 = inst1)"
proof -
  have first: "activate_run host_inst 2 (host_store (Finite 2) (Finite 7)) =
      Inr (host_inst\<lparr> current := Finite (- 14280) \<rparr>,
           (host_store (Finite 2) (Finite 7))(2 := Finite 7, 3 := Finite (- 84)))"
    by (simp add: activate_run_def lmng_activate_def lmng_run_def run_loop.simps Let_def
        host_inst_def host_store_def INT_MAX_def)
  have out: "out_samples 2 2 ((host_store (Finite 2) (Finite 7))(2 := Finite 7, 3 := Finite (- 84))) =
      [Finite 7, Finite (- 84)]"
    by (simp add: out_samples_def upt_rec)
  show ?thesis
    using reactivate_repeats [of host_inst 0 1 2 2
        "(host_store (Finite 2) (Finite 7))(2 := Finite 7, 3 := Finite (- 84))"
        "host_store (Finite 2) (Finite 7)"] first out
    by (simp add: host_inst_def host_store_def INT_MAX_def)
qed



end
